theory Spec2Isabelle
  imports Complex_Main "HOL-Library.Multiset"
begin

section \<open>Documents and the document store\<close>

text \<open>
  The payload of a document (\<open>DocumentData\<close>) is an untyped mapping in the source. The code
  reads two of its fields, \<open>sequencePosition\<close> (a number) and \<open>avatarUrl\<close> (a string); each
  is modelled with that type, \<open>None\<close> standing for a field the document lacks (the read
  then yields \<open>undefined\<close>). Sequence positions are integers, so that JavaScript's
  subtraction on them is exact. The remaining fields are carried along uninterpreted.
\<close>

record document_data =
  sequencePosition :: "int option"
  avatarUrl :: "string option"
  otherFields :: "(string \<times> string) list"

text \<open>
  A \<open>QueryDocumentSnapshot\<close>: \<open>document.id\<close>, \<open>document.ref\<close> (the reference, here its
  path), \<open>document.exists()\<close> and \<open>document.data()\<close>.
\<close>

record snapshot =
  doc_id :: string
  doc_ref :: string
  doc_exists :: bool
  doc_data :: document_data

text \<open>The object \<open>{ id, ref, data }\<close> built by \<open>fromQueryToFirebaseDocumentInfo\<close>.\<close>

record firebaseDocumentInfo =
  info_id :: string
  info_ref :: string
  info_data :: document_data

text \<open>The object \<open>{ uid, data }\<close> built by \<open>getContributions\<close>.\<close>

record contribution =
  uid :: string
  contribution_data :: document_data

text \<open>A rejected store call carries the store's own error.\<close>

datatype store_error = FirestoreError string

text \<open>
  The Firestore instance, as far as the code uses it: \<open>getDocs\<close> on a collection reference,
  and \<open>getDocs\<close> on the query \<open>where('__name__', 'in', chunk)\<close> over a named collection.
  Either call may be rejected. The module-level \<open>firestoreDatabase\<close> is taken to be
  initialised by the time a function is called.
\<close>

record store =
  collection_docs :: "string \<Rightarrow> store_error + snapshot list"
  where_name_in :: "string \<Rightarrow> string list \<Rightarrow> store_error + snapshot list"

text \<open>The calls issued to the store are logged in the order in which they are made.\<close>

datatype request =
  GetDocsCollection string
  | GetDocsWhereNameIn string "string list"

section \<open>Reading and mapping collections\<close>

definition getCircuitsCollectionPath :: "string \<Rightarrow> string" where
  "getCircuitsCollectionPath ceremonyId = ''ceremonies/'' @ ceremonyId @ ''/circuits''"

definition getAllCollectionDocs ::
  "store \<Rightarrow> string \<Rightarrow> request list \<Rightarrow> (store_error + snapshot list) \<times> request list" where
  "getAllCollectionDocs db coll reqs =
     (collection_docs db coll, reqs @ [GetDocsCollection coll])"

definition fromQueryToFirebaseDocumentInfo :: "snapshot list \<Rightarrow> firebaseDocumentInfo list" where
  "fromQueryToFirebaseDocumentInfo queryDocSnap =
     map (\<lambda>document. \<lparr>info_id = doc_id document, info_ref = doc_ref document,
                       info_data = doc_data document\<rparr>) queryDocSnap"

definition getContributions ::
  "store \<Rightarrow> string \<Rightarrow> string \<Rightarrow> request list \<Rightarrow> (store_error + contribution list) \<times> request list" where
  "getContributions db ceremonyId circuitId reqs =
     (case getAllCollectionDocs db
             (''ceremonies/'' @ ceremonyId @ ''/circuits/'' @ circuitId @ ''/contributions'') reqs of
        (Inl e, reqs') \<Rightarrow> (Inl e, reqs')
      | (Inr contributionsDocs, reqs') \<Rightarrow>
          (Inr (map (\<lambda>document. \<lparr>uid = doc_id document,
                                   contribution_data = doc_data document\<rparr>) contributionsDocs),
           reqs'))"

section \<open>Circuits ordered by sequence position\<close>

text \<open>
  JavaScript's \<open>a - b\<close> on the two \<open>sequencePosition\<close> reads: the difference of two numbers,
  and \<open>NaN\<close> (here \<open>None\<close>) as soon as one operand is \<open>undefined\<close>.
\<close>

fun js_minus :: "int option \<Rightarrow> int option \<Rightarrow> int option" where
  "js_minus (Some x) (Some y) = Some (x - y)"
| "js_minus _ _ = None"

text \<open>The comparator \<open>(a, b) => a.data.sequencePosition - b.data.sequencePosition\<close>.\<close>

definition comparefn :: "firebaseDocumentInfo \<Rightarrow> firebaseDocumentInfo \<Rightarrow> int option" where
  "comparefn a b =
     js_minus (sequencePosition (info_data a)) (sequencePosition (info_data b))"

text \<open>
  \<open>Array.prototype.sort\<close> with a comparator. ECMAScript fixes its result only where the
  comparator is a consistent comparator for the values of the array: it never returns
  \<open>NaN\<close>, and with \<open>a =CF b\<close>, \<open>a <CF b\<close>, \<open>a >CF b\<close> for a result that is zero, below
  zero, above zero, \<open>=CF\<close> is reflexive, symmetric and transitive and \<open><CF\<close> and \<open>>CF\<close> are
  transitive.
\<close>

definition cf_equal :: "('a \<Rightarrow> 'a \<Rightarrow> int option) \<Rightarrow> 'a \<Rightarrow> 'a \<Rightarrow> bool" where
  "cf_equal cmp a b = (cmp a b = Some 0)"

definition cf_less :: "('a \<Rightarrow> 'a \<Rightarrow> int option) \<Rightarrow> 'a \<Rightarrow> 'a \<Rightarrow> bool" where
  "cf_less cmp a b = (case cmp a b of None \<Rightarrow> False | Some v \<Rightarrow> v < 0)"

definition cf_greater :: "('a \<Rightarrow> 'a \<Rightarrow> int option) \<Rightarrow> 'a \<Rightarrow> 'a \<Rightarrow> bool" where
  "cf_greater cmp a b = (case cmp a b of None \<Rightarrow> False | Some v \<Rightarrow> 0 < v)"

definition consistent_comparator :: "('a \<Rightarrow> 'a \<Rightarrow> int option) \<Rightarrow> 'a list \<Rightarrow> bool" where
  "consistent_comparator cmp xs =
     (list_all (\<lambda>a. list_all (\<lambda>b. cmp a b \<noteq> None) xs) xs
      \<and> list_all (\<lambda>a. cf_equal cmp a a) xs
      \<and> list_all (\<lambda>a. list_all (\<lambda>b. cf_equal cmp a b \<longrightarrow> cf_equal cmp b a) xs) xs
      \<and> list_all (\<lambda>a. list_all (\<lambda>b. list_all (\<lambda>c.
            (cf_equal cmp a b \<and> cf_equal cmp b c \<longrightarrow> cf_equal cmp a c)
            \<and> (cf_less cmp a b \<and> cf_less cmp b c \<longrightarrow> cf_less cmp a c)
            \<and> (cf_greater cmp a b \<and> cf_greater cmp b c \<longrightarrow> cf_greater cmp a c)) xs) xs) xs)"

text \<open>
  For a consistent comparator the result is the stable sorted arrangement, the same in
  every engine; it is computed here by insertion, an element going in front of the first
  element it does not compare greater than. \<open>SortCompare\<close> reads a \<open>NaN\<close> from the
  comparator as \<open>+0\<close>.
\<close>

definition sortCompare :: "('a \<Rightarrow> 'a \<Rightarrow> int option) \<Rightarrow> 'a \<Rightarrow> 'a \<Rightarrow> int" where
  "sortCompare cmp x y = (case cmp x y of None \<Rightarrow> 0 | Some v \<Rightarrow> v)"

fun insert_by :: "('a \<Rightarrow> 'a \<Rightarrow> int option) \<Rightarrow> 'a \<Rightarrow> 'a list \<Rightarrow> 'a list" where
  "insert_by cmp x [] = [x]"
| "insert_by cmp x (y # ys) =
     (if sortCompare cmp x y \<le> 0 then x # y # ys else y # insert_by cmp x ys)"

fun stable_sort :: "('a \<Rightarrow> 'a \<Rightarrow> int option) \<Rightarrow> 'a list \<Rightarrow> 'a list" where
  "stable_sort cmp [] = []"
| "stable_sort cmp (x # xs) = insert_by cmp x (stable_sort cmp xs)"

text \<open>
  For a comparator that is not consistent the order is implementation-defined: the result
  is what the engine running the code makes of the array. That engine is a parameter of
  the model.
\<close>

definition array_sort ::
  "(('a \<Rightarrow> 'a \<Rightarrow> int option) \<Rightarrow> 'a list \<Rightarrow> 'a list) \<Rightarrow> ('a \<Rightarrow> 'a \<Rightarrow> int option) \<Rightarrow> 'a list \<Rightarrow> 'a list" where
  "array_sort engine cmp xs =
     (if consistent_comparator cmp xs then stable_sort cmp xs else engine cmp xs)"

text \<open>
  The order the ordered circuit list is measured against: \<open>a\<close> comes strictly before \<open>b\<close>
  when both sequence positions are present and the first is the smaller one.
\<close>

definition position_less :: "firebaseDocumentInfo \<Rightarrow> firebaseDocumentInfo \<Rightarrow> bool" where
  "position_less a b =
     (case (sequencePosition (info_data a), sequencePosition (info_data b)) of
        (Some x, Some y) \<Rightarrow> x < y
      | _ \<Rightarrow> False)"

text \<open>The sequence position of a circuit that has one.\<close>

definition position :: "firebaseDocumentInfo \<Rightarrow> int" where
  "position a = the (sequencePosition (info_data a))"

definition getCeremonyCircuits ::
  "((firebaseDocumentInfo \<Rightarrow> firebaseDocumentInfo \<Rightarrow> int option)
      \<Rightarrow> firebaseDocumentInfo list \<Rightarrow> firebaseDocumentInfo list)
   \<Rightarrow> store \<Rightarrow> string \<Rightarrow> request list
   \<Rightarrow> (store_error + firebaseDocumentInfo list) \<times> request list" where
  "getCeremonyCircuits engine db ceremonyId reqs =
     (case getAllCollectionDocs db (getCircuitsCollectionPath ceremonyId) reqs of
        (Inl e, reqs') \<Rightarrow> (Inl e, reqs')
      | (Inr docs, reqs') \<Rightarrow>
          (Inr (array_sort engine comparefn (fromQueryToFirebaseDocumentInfo docs)), reqs'))"

section \<open>Chunking the participant identifiers\<close>

text \<open>
  \<open>while (participantIds.length) { chunks.push(participantIds.splice(0, 10)) }\<close>:
  \<open>splice(0, 10)\<close> removes the first ten elements (all of them when there are fewer) and
  returns them.
\<close>

function chunk_loop :: "'a list \<Rightarrow> 'a list list \<Rightarrow> 'a list list" where
  "chunk_loop participantIds chunks =
     (if length participantIds \<noteq> 0
      then chunk_loop (drop 10 participantIds) (chunks @ [take 10 participantIds])
      else chunks)"
  by pat_completeness auto
termination
  by (relation "measure (\<lambda>(participantIds, chunks). length participantIds)") auto

declare chunk_loop.simps [simp del]

definition chunk_ids :: "'a list \<Rightarrow> 'a list list" where
  "chunk_ids participantIds = chunk_loop participantIds []"

section \<open>The fan-out over the batches\<close>

text \<open>
  Modelled from the spec: the record returned by \<open>processItems\<close>, which the source imports
  from \<open>./utils\<close>; that file is not among the sources. The results are the outputs of
  the batches that succeeded, one entry per batch (the caller flattens "the list of lists
  of avatar URLs"), and the errors are the failure causes, one per failed batch.
\<close>

record ('r, 'e) fanout =
  results :: "'r list"
  errors :: "'e list"

text \<open>
  Modelled from the spec: the dispatch of \<open>processItems\<close>. Every batch is handed to the
  operation, in order; a batch either fails (\<open>Inl\<close>) or returns its output (\<open>Inr\<close>), and a
  failure stops nothing. The state threaded through is whatever the operation acts on.
\<close>

fun dispatch :: "('a \<Rightarrow> 's \<Rightarrow> ('e + 'r) \<times> 's) \<Rightarrow> 'a list \<Rightarrow> 's \<Rightarrow> ('e + 'r) list \<times> 's" where
  "dispatch process [] s = ([], s)"
| "dispatch process (item # items) s =
     (case process item s of
        (outcome, s') \<Rightarrow>
          (case dispatch process items s' of
             (outcomes, s'') \<Rightarrow> (outcome # outcomes, s'')))"

text \<open>Modelled from the spec: the outputs of the batches of \<open>processItems\<close> that succeeded.\<close>

fun successes :: "('e + 'r) list \<Rightarrow> 'r list" where
  "successes [] = []"
| "successes (Inl e # outcomes) = successes outcomes"
| "successes (Inr r # outcomes) = r # successes outcomes"

text \<open>Modelled from the spec: the failure causes of the batches of \<open>processItems\<close> that failed.\<close>

fun failures :: "('e + 'r) list \<Rightarrow> 'e list" where
  "failures [] = []"
| "failures (Inl e # outcomes) = e # failures outcomes"
| "failures (Inr r # outcomes) = failures outcomes"

text \<open>
  Modelled from the spec: \<open>processItems(items, process, flag)\<close> of \<open>./utils\<close>, absent from
  the sources. The flag tells fail-fast from collect-all; the caller passes \<open>false\<close> and
  selects collect-all. Under collect-all every failure is recorded in \<open>errors\<close> and every
  output in \<open>results\<close>; under fail-fast the first failure is the failure of the whole call.
\<close>

definition processItems ::
  "'a list \<Rightarrow> ('a \<Rightarrow> 's \<Rightarrow> ('e + 'r) \<times> 's) \<Rightarrow> bool \<Rightarrow> 's \<Rightarrow> ('e + ('r, 'e) fanout) \<times> 's" where
  "processItems items process failFast s =
     (case dispatch process items s of
        (outcomes, s') \<Rightarrow>
          (if failFast
           then (case failures outcomes of
                   [] \<Rightarrow> Inr \<lparr>results = successes outcomes, errors = []\<rparr>
                 | e # _ \<Rightarrow> Inl e)
           else Inr \<lparr>results = successes outcomes, errors = failures outcomes\<rparr>,
           s'))"

section \<open>Avatars of the participants\<close>

text \<open>
  \<open>fetchAvatarsForChunk\<close>: the query over the \<open>avatars\<close> collection, then
  \<open>.filter(doc => doc.exists()).map(doc => doc.data().avatarUrl)\<close>. An entry of the result
  is \<open>None\<close> where the read of \<open>avatarUrl\<close> yields \<open>undefined\<close>.
\<close>

definition fetchAvatarsForChunk ::
  "store \<Rightarrow> string list \<Rightarrow> request list \<Rightarrow> (store_error + string option list) \<times> request list" where
  "fetchAvatarsForChunk db chunk reqs =
     (case where_name_in db ''avatars'' chunk of
        Inl e \<Rightarrow> (Inl e, reqs @ [GetDocsWhereNameIn ''avatars'' chunk])
      | Inr avatarDocs \<Rightarrow>
          (Inr (map (\<lambda>doc. avatarUrl (doc_data doc)) (filter doc_exists avatarDocs)),
           reqs @ [GetDocsWhereNameIn ''avatars'' chunk]))"

definition getParticipantsAvatar ::
  "store \<Rightarrow> string \<Rightarrow> request list \<Rightarrow> (store_error + string option list) \<times> request list" where
  "getParticipantsAvatar db ceremonyId reqs =
     (case getAllCollectionDocs db (''ceremonies/'' @ ceremonyId @ ''/participants'') reqs of
        (Inl e, reqs1) \<Rightarrow> (Inl e, reqs1)
      | (Inr participantsDocs, reqs1) \<Rightarrow>
          (let participantsData = fromQueryToFirebaseDocumentInfo participantsDocs;
               participantIds = map info_id participantsData;
               chunks = chunk_ids participantIds
           in case processItems chunks (fetchAvatarsForChunk db) False reqs1 of
                (Inl e, reqs2) \<Rightarrow> (Inl e, reqs2)
              | (Inr fo, reqs2) \<Rightarrow> (Inr (concat (results fo)), reqs2)))"

text \<open>
  What one batch contributes to the avatar list: nothing when its query is rejected, else
  the \<open>avatarUrl\<close> reads of the documents that exist.
\<close>

abbreviation urls_of_chunk :: "store \<Rightarrow> string list \<Rightarrow> string option list" where
  "urls_of_chunk db chunk \<equiv>
     (case where_name_in db ''avatars'' chunk of
        Inl e \<Rightarrow> []
      | Inr avatarDocs \<Rightarrow> map (\<lambda>doc. avatarUrl (doc_data doc)) (filter doc_exists avatarDocs))"

section \<open>Example documents and stores\<close>

text \<open>
  Shorthands for the concrete documents and stores on which the theorems below are run:
  a snapshot and its mapped object with a given identifier, sequence position and avatar
  URL, and a store holding one collection and answering membership queries on \<open>avatars\<close>.
\<close>

abbreviation example_doc :: "string \<Rightarrow> bool \<Rightarrow> int option \<Rightarrow> string option \<Rightarrow> snapshot" where
  "example_doc i e p u \<equiv>
     \<lparr>doc_id = i, doc_ref = ''ref/'' @ i, doc_exists = e,
      doc_data = \<lparr>sequencePosition = p, avatarUrl = u, otherFields = []\<rparr>\<rparr>"

abbreviation example_info :: "string \<Rightarrow> int option \<Rightarrow> string option \<Rightarrow> firebaseDocumentInfo" where
  "example_info i p u \<equiv>
     \<lparr>info_id = i, info_ref = ''ref/'' @ i,
      info_data = \<lparr>sequencePosition = p, avatarUrl = u, otherFields = []\<rparr>\<rparr>"

abbreviation example_store ::
  "string \<Rightarrow> snapshot list \<Rightarrow> (string list \<Rightarrow> store_error + snapshot list) \<Rightarrow> store" where
  "example_store path docs member \<equiv>
     \<lparr>collection_docs = (\<lambda>p. if p = path then Inr docs else Inr []),
      where_name_in = (\<lambda>name chunk. if name = ''avatars'' then member chunk else Inr [])\<rparr>"

abbreviation example_ids :: "string list" where
  "example_ids \<equiv>
     [''a'', ''b'', ''c'', ''d'', ''e'', ''f'', ''g'', ''h'', ''i'', ''j'',
      ''k'', ''l'', ''m'', ''n'', ''o'', ''p'', ''q'', ''r'', ''s'', ''t'',
      ''u'', ''v'', ''w'', ''x'', ''y'']"

abbreviation example_avatars :: "snapshot list" where
  "example_avatars \<equiv>
     [example_doc ''y'' True None (Some ''uy''), example_doc ''z'' True None (Some ''uz''),
      example_doc ''a'' True None (Some ''ua''), example_doc ''k'' True None (Some ''uk'')]"

section \<open>Properties of the chunking loop\<close>

lemma chunk_loop_Nil: "chunk_loop [] chunks = chunks"
  by (subst chunk_loop.simps) simp

lemma chunk_loop_step:
  "ids \<noteq> [] \<Longrightarrow> chunk_loop ids chunks = chunk_loop (drop 10 ids) (chunks @ [take 10 ids])"
  by (subst chunk_loop.simps) simp

lemma concat_chunk_loop: "concat (chunk_loop ids chunks) = concat chunks @ ids"
proof (induction ids chunks rule: chunk_loop.induct)
  case (1 ids chunks)
  show ?case
  proof (cases "ids = []")
    case True
    then show ?thesis
      by (simp add: chunk_loop_Nil)
  next
    case False
    then have "concat (chunk_loop (drop 10 ids) (chunks @ [take 10 ids]))
                 = concat (chunks @ [take 10 ids]) @ drop 10 ids"
      by (intro "1.IH") simp
    then show ?thesis
      by (simp add: chunk_loop_step [OF False])
  qed
qed

lemma tenth_step: "n \<noteq> 0 \<Longrightarrow> (n - 10 + 9) div 10 + 1 = (n + 9) div (10::nat)"
  by (cases "n < 10") (simp_all add: div_if)

lemma length_chunk_loop:
  "length (chunk_loop ids chunks) = length chunks + (length ids + 9) div 10"
proof (induction ids chunks rule: chunk_loop.induct)
  case (1 ids chunks)
  show ?case
  proof (cases "ids = []")
    case True
    then show ?thesis
      by (simp add: chunk_loop_Nil)
  next
    case False
    then have "length (chunk_loop (drop 10 ids) (chunks @ [take 10 ids]))
                 = length (chunks @ [take 10 ids]) + (length (drop 10 ids) + 9) div 10"
      by (intro "1.IH") simp
    moreover have "(length ids - 10 + 9) div 10 + 1 = (length ids + 9) div 10"
      using False by (intro tenth_step) simp
    ultimately show ?thesis
      by (simp add: chunk_loop_step [OF False])
  qed
qed

lemma chunk_loop_sizes:
  "\<forall>c \<in> set chunks. 0 < length c \<and> length c \<le> 10 \<Longrightarrow>
   \<forall>c \<in> set (chunk_loop ids chunks). 0 < length c \<and> length c \<le> 10"
proof (induction ids chunks rule: chunk_loop.induct)
  case (1 ids chunks)
  show ?case
  proof (cases "ids = []")
    case True
    then show ?thesis
      using "1.prems" by (simp add: chunk_loop_Nil)
  next
    case False
    have "\<forall>c \<in> set (chunks @ [take 10 ids]). 0 < length c \<and> length c \<le> 10"
      using False "1.prems" by simp
    then have "\<forall>c \<in> set (chunk_loop (drop 10 ids) (chunks @ [take 10 ids])).
                 0 < length c \<and> length c \<le> 10"
      using False by (intro "1.IH") simp_all
    then show ?thesis
      by (simp only: chunk_loop_step [OF False])
  qed
qed

lemma ceiling_tenth: "\<lceil>real n / 10\<rceil> = int ((n + 9) div 10)"
proof -
  define q where "q = (n + 9) div 10"
  define r where "r = (n + 9) mod 10"
  have "10 * q + r = n + 9"
    unfolding q_def r_def by (rule mult_div_mod_eq)
  moreover have "r < 10"
    unfolding r_def by simp
  ultimately have "n \<le> 10 * q" "10 * q < n + 10"
    by linarith+
  then have "real n \<le> 10 * real q" "10 * real q < real n + 10"
    by linarith+
  then have "real_of_int (int q) - 1 < real n / 10" "real n / 10 \<le> real_of_int (int q)"
    by simp_all
  then have "\<lceil>real n / 10\<rceil> = int q"
    by (rule ceiling_unique)
  then show ?thesis
    by (simp add: q_def)
qed

text \<open>
  C1. For every identifier list of length \<open>N\<close>, the batching loop yields \<open>ceil(N/10)\<close>
  batches, each of size at most 10, whose concatenation is the original list (so the
  batches are contiguous, in order, and no identifier is duplicated or dropped); the empty
  list yields no batch.
\<close>

theorem chunk_ids_partition:
  "int (length (chunk_ids ids)) = \<lceil>real (length ids) / 10\<rceil>
   \<and> (\<forall>c \<in> set (chunk_ids ids). length c \<le> 10)
   \<and> concat (chunk_ids ids) = ids
   \<and> chunk_ids ([] :: 'a list) = []"
proof -
  have "\<forall>c \<in> set (chunk_loop ids []). 0 < length c \<and> length c \<le> 10"
    by (rule chunk_loop_sizes) simp
  then have "\<forall>c \<in> set (chunk_ids ids). length c \<le> 10"
    by (simp add: chunk_ids_def)
  moreover have "int (length (chunk_ids ids)) = \<lceil>real (length ids) / 10\<rceil>"
    by (simp add: chunk_ids_def ceiling_tenth length_chunk_loop)
  moreover have "concat (chunk_ids ids) = ids"
    by (simp add: chunk_ids_def concat_chunk_loop)
  moreover have "chunk_ids ([] :: 'a list) = []"
    by (simp add: chunk_ids_def chunk_loop_Nil)
  ultimately show ?thesis
    by blast
qed

theorem chunk_ids_partition_witness:
  "chunk_ids (take 12 example_ids) = [take 10 example_ids, [''k'', ''l'']]
   \<and> int (length (chunk_ids (take 12 example_ids))) = \<lceil>real (length (take 12 example_ids)) / 10\<rceil>
   \<and> list_all (\<lambda>c. length c \<le> 10) (chunk_ids (take 12 example_ids))
   \<and> concat (chunk_ids (take 12 example_ids)) = take 12 example_ids"
proof -
  have "chunk_ids (take 12 example_ids) = [take 10 example_ids, [''k'', ''l'']]"
    by (simp add: chunk_ids_def chunk_loop_step chunk_loop_Nil)
  then show ?thesis
    using chunk_ids_partition [of "take 12 example_ids"] by (simp add: list_all_iff)
qed

section \<open>The document mapper and the contribution reader\<close>

text \<open>
  C7. \<open>fromQueryToFirebaseDocumentInfo\<close> returns, for every list of snapshots, a list of the
  same length whose \<open>i\<close>-th element is the \<open>{id, ref, data}\<close> object of the \<open>i\<close>-th snapshot;
  the payload is passed on as it is, whatever fields it has.
\<close>

theorem fromQueryToFirebaseDocumentInfo_total:
  "length (fromQueryToFirebaseDocumentInfo queryDocSnap) = length queryDocSnap
   \<and> (\<forall>i < length queryDocSnap.
         fromQueryToFirebaseDocumentInfo queryDocSnap ! i
           = \<lparr>info_id = doc_id (queryDocSnap ! i), info_ref = doc_ref (queryDocSnap ! i),
              info_data = doc_data (queryDocSnap ! i)\<rparr>)"
  by (simp add: fromQueryToFirebaseDocumentInfo_def)

theorem fromQueryToFirebaseDocumentInfo_total_witness:
  "length (fromQueryToFirebaseDocumentInfo
      [example_doc ''b'' True (Some 1) None, example_doc ''a'' False None None]) = 2
   \<and> fromQueryToFirebaseDocumentInfo
        [example_doc ''b'' True (Some 1) None, example_doc ''a'' False None None] ! 1
       = example_info ''a'' None None"
proof -
  let ?docs = "[example_doc ''b'' True (Some 1) None, example_doc ''a'' False None None]"
  have "(1::nat) < length ?docs"
    by simp
  then have "fromQueryToFirebaseDocumentInfo ?docs ! 1
          = \<lparr>info_id = doc_id (?docs ! 1), info_ref = doc_ref (?docs ! 1),
             info_data = doc_data (?docs ! 1)\<rparr>"
    using fromQueryToFirebaseDocumentInfo_total [of ?docs] by blast
  then show ?thesis
    using fromQueryToFirebaseDocumentInfo_total [of ?docs] by simp
qed

text \<open>
  C8. \<open>getContributions\<close> reads the collection
  \<open>ceremonies/{ceremonyId}/circuits/{circuitId}/contributions\<close> and returns one object per
  document, in the order of the read: the identifier (under the key \<open>uid\<close>) and the payload
  that the document mapper would give, without the reference.
\<close>

theorem getContributions_store_order:
  assumes "collection_docs db
             (''ceremonies/'' @ ceremonyId @ ''/circuits/'' @ circuitId @ ''/contributions'')
           = Inr docs"
  shows "\<exists>cs. getContributions db ceremonyId circuitId reqs
             = (Inr cs, reqs @ [GetDocsCollection
                  (''ceremonies/'' @ ceremonyId @ ''/circuits/'' @ circuitId @ ''/contributions'')])
           \<and> length cs = length docs
           \<and> map uid cs = map doc_id docs
           \<and> map contribution_data cs = map doc_data docs
           \<and> map (\<lambda>c. (uid c, contribution_data c)) cs
               = map (\<lambda>i. (info_id i, info_data i)) (fromQueryToFirebaseDocumentInfo docs)"
  using assms
  by (simp add: getContributions_def getAllCollectionDocs_def fromQueryToFirebaseDocumentInfo_def
      comp_def)

theorem getContributions_store_order_witness:
  "collection_docs
     (example_store ''ceremonies/x/circuits/y/contributions''
        [example_doc ''b'' True (Some 1) None, example_doc ''a'' True None None] (\<lambda>chunk. Inr []))
     (''ceremonies/'' @ ''x'' @ ''/circuits/'' @ ''y'' @ ''/contributions'')
     = Inr [example_doc ''b'' True (Some 1) None, example_doc ''a'' True None None]
   \<and> getContributions
        (example_store ''ceremonies/x/circuits/y/contributions''
           [example_doc ''b'' True (Some 1) None, example_doc ''a'' True None None] (\<lambda>chunk. Inr []))
        ''x'' ''y'' []
       = (Inr [\<lparr>uid = ''b'', contribution_data = doc_data (example_doc ''b'' True (Some 1) None)\<rparr>,
               \<lparr>uid = ''a'', contribution_data = doc_data (example_doc ''a'' True None None)\<rparr>],
          [GetDocsCollection ''ceremonies/x/circuits/y/contributions''])"
  (is "?H \<and> ?C")
proof -
  have h: ?H
    by simp
  have ?C
    by (simp add: getContributions_def getAllCollectionDocs_def)
  then show ?thesis
    using h getContributions_store_order [OF h, of "[]"] by simp
qed

section \<open>The ordered circuit list\<close>

lemma mset_insert_by: "mset (insert_by cmp x xs) = add_mset x (mset xs)"
  by (induction xs) simp_all

lemma mset_stable_sort: "mset (stable_sort cmp xs) = mset xs"
  by (induction xs) (simp_all add: mset_insert_by)

lemma set_insert_by: "set (insert_by cmp x xs) = insert x (set xs)"
  by (induction xs) auto

lemma set_stable_sort: "set (stable_sort cmp xs) = set xs"
  by (induction xs) (simp_all add: set_insert_by)

lemma sortCompare_present:
  "sequencePosition (info_data a) \<noteq> None \<Longrightarrow> sequencePosition (info_data b) \<noteq> None \<Longrightarrow>
   sortCompare comparefn a b = position a - position b"
  by (auto simp: sortCompare_def comparefn_def position_def)

lemma sorted_insert_by:
  "sequencePosition (info_data x) \<noteq> None \<Longrightarrow>
   \<forall>y \<in> set xs. sequencePosition (info_data y) \<noteq> None \<Longrightarrow>
   sorted (map position xs) \<Longrightarrow>
   sorted (map position (insert_by comparefn x xs))"
proof (induction xs)
  case Nil
  then show ?case by simp
next
  case (Cons y ys)
  have c: "sortCompare comparefn x y = position x - position y"
    using Cons.prems by (intro sortCompare_present) simp_all
  show ?case
  proof (cases "position x \<le> position y")
    case True
    then show ?thesis
      using Cons.prems c by auto
  next
    case False
    have "sorted (map position (insert_by comparefn x ys))"
      using Cons.prems by (intro Cons.IH) simp_all
    then show ?thesis
      using False Cons.prems c by (auto simp: set_insert_by)
  qed
qed

lemma sorted_stable_sort:
  "\<forall>y \<in> set xs. sequencePosition (info_data y) \<noteq> None \<Longrightarrow>
   sorted (map position (stable_sort comparefn xs))"
proof (induction xs)
  case Nil
  then show ?case by simp
next
  case (Cons x xs)
  then show ?case
    by (simp add: sorted_insert_by set_stable_sort)
qed

lemma position_less_iff:
  "sequencePosition (info_data a) \<noteq> None \<Longrightarrow> sequencePosition (info_data b) \<noteq> None \<Longrightarrow>
   position_less a b \<longleftrightarrow> position a < position b"
  by (auto simp: position_less_def position_def)

lemma sorted_wrt_position_less:
  "\<forall>y \<in> set xs. sequencePosition (info_data y) \<noteq> None \<Longrightarrow>
   sorted_wrt position_less xs \<longleftrightarrow> sorted_wrt (<) (map position xs)"
  by (induction xs) (auto simp: position_less_iff)

lemma position_eq_iff:
  "sequencePosition (info_data a) \<noteq> None \<Longrightarrow> sequencePosition (info_data b) \<noteq> None \<Longrightarrow>
   position a = position b \<longleftrightarrow> sequencePosition (info_data a) = sequencePosition (info_data b)"
  by (auto simp: position_def)

lemma distinct_positions:
  "\<forall>y \<in> set xs. sequencePosition (info_data y) \<noteq> None \<Longrightarrow>
   distinct (map (\<lambda>a. sequencePosition (info_data a)) xs) \<Longrightarrow>
   distinct (map position xs)"
proof (induction xs)
  case Nil
  then show ?case by simp
next
  case (Cons x xs)
  have "position x \<noteq> position y" if "y \<in> set xs" for y
  proof -
    have "sequencePosition (info_data x) \<noteq> sequencePosition (info_data y)"
      using that Cons.prems(2) by auto
    then show ?thesis
      using that Cons.prems(1) by (simp add: position_eq_iff)
  qed
  then have "position x \<notin> set (map position xs)"
    by auto
  moreover have "distinct (map position xs)"
    using Cons.prems by (intro Cons.IH) simp_all
  ultimately show ?case
    by simp
qed

lemma stable_sort_strictly_ascending:
  assumes "\<forall>y \<in> set xs. sequencePosition (info_data y) \<noteq> None"
    and "distinct (map (\<lambda>a. sequencePosition (info_data a)) xs)"
  shows "sorted_wrt position_less (stable_sort comparefn xs)"
proof -
  have "mset (map position (stable_sort comparefn xs)) = mset (map position xs)"
    by (simp add: mset_stable_sort)
  then have "distinct (map position (stable_sort comparefn xs))"
    using distinct_positions [OF assms] by (rule mset_eq_imp_distinct_iff [THEN iffD2])
  moreover have "sorted (map position (stable_sort comparefn xs))"
    using assms(1) by (rule sorted_stable_sort)
  ultimately have "sorted_wrt (<) (map position (stable_sort comparefn xs))"
    by (simp only: strict_sorted_iff)
  then show ?thesis
    using assms(1) by (simp add: sorted_wrt_position_less set_stable_sort)
qed

lemma ascending_unique:
  assumes present: "\<forall>y \<in> set xs. sequencePosition (info_data y) \<noteq> None"
    and "sorted_wrt position_less xs" and "sorted_wrt position_less ys"
    and "mset ys = mset xs"
  shows "ys = xs"
proof -
  have sets: "set ys = set xs"
    using assms(4) by (rule mset_eq_setD)
  have sx: "sorted_wrt (<) (map position xs)"
    using assms(1,2) by (simp add: sorted_wrt_position_less)
  have sy: "sorted_wrt (<) (map position ys)"
    using assms(1,3) sets by (simp add: sorted_wrt_position_less)
  have "set (map position ys) = set (map position xs)"
    using sets by simp
  then have eq: "map position ys = map position xs"
    using sx sy by (intro strict_sorted_equal) simp_all
  have "distinct (map position xs)"
    using sx by (simp only: strict_sorted_iff)
  then have "inj_on position (set xs)"
    by (simp only: distinct_map)
  then have "inj_on position (set ys \<union> set xs)"
    using sets by simp
  then show ?thesis
    using eq by (simp only: inj_on_map_eq_map)
qed

lemma comparefn_present:
  "sequencePosition (info_data a) \<noteq> None \<Longrightarrow> sequencePosition (info_data b) \<noteq> None \<Longrightarrow>
   comparefn a b = Some (position a - position b)"
  by (auto simp: comparefn_def position_def)

lemma consistent_comparefn:
  assumes "\<forall>y \<in> set xs. sequencePosition (info_data y) \<noteq> None"
  shows "consistent_comparator comparefn xs"
proof -
  have c: "comparefn a b = Some (position a - position b)" if "a \<in> set xs" "b \<in> set xs" for a b
    using that assms by (intro comparefn_present) simp_all
  have "list_all (\<lambda>a. list_all (\<lambda>b. comparefn a b \<noteq> None) xs) xs"
    by (simp add: list_all_iff c)
  moreover have "list_all (\<lambda>a. cf_equal comparefn a a) xs"
    by (simp add: list_all_iff cf_equal_def c)
  moreover have "list_all (\<lambda>a. list_all (\<lambda>b. cf_equal comparefn a b \<longrightarrow> cf_equal comparefn b a) xs) xs"
    by (simp add: list_all_iff cf_equal_def c)
  moreover have "list_all (\<lambda>a. list_all (\<lambda>b. list_all (\<lambda>c.
            (cf_equal comparefn a b \<and> cf_equal comparefn b c \<longrightarrow> cf_equal comparefn a c)
            \<and> (cf_less comparefn a b \<and> cf_less comparefn b c \<longrightarrow> cf_less comparefn a c)
            \<and> (cf_greater comparefn a b \<and> cf_greater comparefn b c \<longrightarrow> cf_greater comparefn a c))
          xs) xs) xs"
    by (simp add: list_all_iff cf_equal_def cf_less_def cf_greater_def c)
  ultimately show ?thesis
    by (simp only: consistent_comparator_def simp_thms)
qed

text \<open>
  C2. \<open>getCeremonyCircuits\<close> reads the collection \<open>ceremonies/{id}/circuits\<close> (one read, logged),
  maps every document to its \<open>{id, ref, data}\<close> object and, when every circuit has a
  sequence position and no two are equal, returns them strictly ascending by that position,
  whatever the engine. The result is then the only strictly ascending arrangement of the
  mapped documents.
\<close>

theorem getCeremonyCircuits_ascending:
  assumes read: "collection_docs db (''ceremonies/'' @ ceremonyId @ ''/circuits'') = Inr docs"
    and present: "\<forall>d \<in> set docs. sequencePosition (doc_data d) \<noteq> None"
    and unique: "distinct (map (\<lambda>d. sequencePosition (doc_data d)) docs)"
  shows "\<exists>circuits.
           getCeremonyCircuits engine db ceremonyId reqs
             = (Inr circuits, reqs @ [GetDocsCollection (''ceremonies/'' @ ceremonyId @ ''/circuits'')])
           \<and> set circuits = set (fromQueryToFirebaseDocumentInfo docs)
           \<and> length circuits = length docs
           \<and> sorted_wrt position_less circuits
           \<and> (\<forall>other. mset other = mset (fromQueryToFirebaseDocumentInfo docs)
                  \<and> sorted_wrt position_less other \<longrightarrow> other = circuits)"
proof -
  let ?infos = "fromQueryToFirebaseDocumentInfo docs"
  let ?circuits = "stable_sort comparefn ?infos"
  have p: "\<forall>y \<in> set ?infos. sequencePosition (info_data y) \<noteq> None"
    using present by (simp add: fromQueryToFirebaseDocumentInfo_def)
  have "map (\<lambda>a. sequencePosition (info_data a)) ?infos
          = map (\<lambda>d. sequencePosition (doc_data d)) docs"
    by (simp add: fromQueryToFirebaseDocumentInfo_def)
  then have u: "distinct (map (\<lambda>a. sequencePosition (info_data a)) ?infos)"
    using unique by simp
  have sorted: "array_sort engine comparefn ?infos = ?circuits"
    using consistent_comparefn [OF p] by (simp add: array_sort_def)
  have asc: "sorted_wrt position_less ?circuits"
    using p u by (rule stable_sort_strictly_ascending)
  have p': "\<forall>y \<in> set ?circuits. sequencePosition (info_data y) \<noteq> None"
    using p by (simp add: set_stable_sort)
  have uniq: "\<forall>other. mset other = mset ?infos \<and> sorted_wrt position_less other
                \<longrightarrow> other = ?circuits"
  proof (intro allI impI)
    fix other
    assume o: "mset other = mset ?infos \<and> sorted_wrt position_less other"
    then have "mset other = mset ?circuits"
      by (simp add: mset_stable_sort)
    with o show "other = ?circuits"
      using p' asc by (intro ascending_unique) simp_all
  qed
  have "getCeremonyCircuits engine db ceremonyId reqs
          = (Inr ?circuits, reqs @ [GetDocsCollection (''ceremonies/'' @ ceremonyId @ ''/circuits'')])"
    using read sorted by (simp add: getCeremonyCircuits_def getAllCollectionDocs_def
        getCircuitsCollectionPath_def)
  moreover have "set ?circuits = set ?infos"
    by (rule set_stable_sort)
  moreover have "length ?circuits = length docs"
    using mset_stable_sort [of comparefn ?infos, THEN mset_eq_length]
    by (simp add: fromQueryToFirebaseDocumentInfo_def)
  ultimately show ?thesis
    using asc uniq by blast
qed

theorem getCeremonyCircuits_ascending_witness:
  "collection_docs
     (example_store ''ceremonies/x/circuits''
        [example_doc ''c'' True (Some 2) None, example_doc ''a'' True (Some 0) None,
         example_doc ''b'' True (Some 1) None] (\<lambda>chunk. Inr []))
     (''ceremonies/'' @ ''x'' @ ''/circuits'')
     = Inr [example_doc ''c'' True (Some 2) None, example_doc ''a'' True (Some 0) None,
            example_doc ''b'' True (Some 1) None]
   \<and> list_all (\<lambda>d. sequencePosition (doc_data d) \<noteq> None)
        [example_doc ''c'' True (Some 2) None, example_doc ''a'' True (Some 0) None,
         example_doc ''b'' True (Some 1) None]
   \<and> distinct (map (\<lambda>d. sequencePosition (doc_data d))
        [example_doc ''c'' True (Some 2) None, example_doc ''a'' True (Some 0) None,
         example_doc ''b'' True (Some 1) None])
   \<and> getCeremonyCircuits (\<lambda>cmp xs. [])
        (example_store ''ceremonies/x/circuits''
           [example_doc ''c'' True (Some 2) None, example_doc ''a'' True (Some 0) None,
            example_doc ''b'' True (Some 1) None] (\<lambda>chunk. Inr []))
        ''x'' []
       = (Inr [example_info ''a'' (Some 0) None, example_info ''b'' (Some 1) None,
               example_info ''c'' (Some 2) None],
          [GetDocsCollection ''ceremonies/x/circuits''])
   \<and> sorted_wrt position_less
        [example_info ''a'' (Some 0) None, example_info ''b'' (Some 1) None,
         example_info ''c'' (Some 2) None]"
  (is "?H1 \<and> ?H2 \<and> ?H3 \<and> ?C \<and> ?S")
proof -
  have h1: ?H1 and h2: ?H2 and h3: ?H3
    by simp_all
  have h2': "\<forall>d \<in> set [example_doc ''c'' True (Some 2) None, example_doc ''a'' True (Some 0) None,
                        example_doc ''b'' True (Some 1) None]. sequencePosition (doc_data d) \<noteq> None"
    by simp
  have c: ?C
    by (simp add: getCeremonyCircuits_def getAllCollectionDocs_def getCircuitsCollectionPath_def
        fromQueryToFirebaseDocumentInfo_def array_sort_def consistent_comparator_def
        cf_equal_def cf_less_def cf_greater_def comparefn_def sortCompare_def)
  have ?S
    using getCeremonyCircuits_ascending [OF h1 h2' h3, of "\<lambda>cmp xs. []" "[]"] unfolding c by simp
  then show ?thesis
    using c h1 h2 h3 by blast
qed

section \<open>The fan-out and the avatar list\<close>

lemma length_successes_failures:
  "length (successes outcomes) + length (failures outcomes) = length outcomes"
  by (induction outcomes rule: successes.induct) simp_all

lemma dispatch_outcomes:
  "dispatch (\<lambda>b s. (f b, g b s)) batches s = (map f batches, fold g batches s)"
  by (induction batches arbitrary: s) simp_all

lemma successes_map:
  "successes (map (\<lambda>b. if b \<in> F then Inl (err b) else Inr (out b)) batches)
     = map out (filter (\<lambda>b. b \<notin> F) batches)"
  by (induction batches) simp_all

lemma failures_map:
  "failures (map (\<lambda>b. if b \<in> F then Inl (err b) else Inr (out b)) batches)
     = map err (filter (\<lambda>b. b \<in> F) batches)"
  by (induction batches) simp_all

lemma length_filter_card:
  assumes "distinct batches" and "F \<subseteq> set batches"
  shows "length (filter (\<lambda>b. b \<in> F) batches) = card F"
proof -
  have "distinct (filter (\<lambda>b. b \<in> F) batches)"
    using assms(1) by simp
  then have "length (filter (\<lambda>b. b \<in> F) batches) = card (set (filter (\<lambda>b. b \<in> F) batches))"
    by (simp only: distinct_card)
  moreover have "set (filter (\<lambda>b. b \<in> F) batches) = F"
    using assms(2) by auto
  ultimately show ?thesis
    by simp
qed

text \<open>
  C3. Collect-all fan-out: for every list of batches and every set \<open>F\<close> of batches made to
  fail (the rest succeeding with output \<open>out b\<close>), \<open>processItems\<close> returns a pair; the
  flattened results have as many items as the outputs of the successful batches together,
  the errors are one per failing batch (\<open>|F|\<close> of them when the batches are distinct and
  \<open>F\<close> is among them), and the number of per-batch results plus the number of errors is the
  number of batches. \<open>F\<close> may be empty or hold every batch.
\<close>

theorem processItems_collect_all:
  "\<exists>fo. fst (processItems batches
                (\<lambda>b s. (if b \<in> F then Inl (err b) else Inr (out b), g b s)) False s) = Inr fo
     \<and> results fo = map out (filter (\<lambda>b. b \<notin> F) batches)
     \<and> errors fo = map err (filter (\<lambda>b. b \<in> F) batches)
     \<and> length (concat (results fo)) = (\<Sum>b \<leftarrow> filter (\<lambda>b. b \<notin> F) batches. length (out b))
     \<and> (distinct batches \<and> F \<subseteq> set batches \<longrightarrow> length (errors fo) = card F)
     \<and> length (results fo) + length (errors fo) = length batches"
proof -
  let ?process = "\<lambda>b s. (if b \<in> F then Inl (err b) else Inr (out b), g b s)"
  let ?outcomes = "map (\<lambda>b. if b \<in> F then Inl (err b) else Inr (out b)) batches"
  let ?fo = "\<lparr>results = successes ?outcomes, errors = failures ?outcomes\<rparr>"
  have "fst (processItems batches ?process False s) = Inr ?fo"
    by (simp add: processItems_def dispatch_outcomes)
  moreover have "results ?fo = map out (filter (\<lambda>b. b \<notin> F) batches)"
    by (simp add: successes_map)
  moreover have "errors ?fo = map err (filter (\<lambda>b. b \<in> F) batches)"
    by (simp add: failures_map)
  moreover have "length (concat (results ?fo)) = (\<Sum>b \<leftarrow> filter (\<lambda>b. b \<notin> F) batches. length (out b))"
    by (simp add: successes_map length_concat comp_def)
  moreover have "distinct batches \<and> F \<subseteq> set batches \<longrightarrow> length (errors ?fo) = card F"
    by (simp add: failures_map length_filter_card)
  moreover have "length (results ?fo) + length (errors ?fo) = length batches"
    using length_successes_failures [of ?outcomes] by simp
  ultimately show ?thesis
    by blast
qed

theorem processItems_collect_all_witness:
  "distinct [1, 2, 3, 4 :: nat] \<and> {2, 3} \<subseteq> set [1, 2, 3, 4 :: nat]
   \<and> fst (processItems [1, 2, 3, 4 :: nat]
            (\<lambda>b s. (if b \<in> {2, 3} then Inl (replicate b CHR ''!'') else Inr (replicate b b),
                    s @ [b]))
            False [])
       = Inr \<lparr>results = [[1], [4, 4, 4, 4]], errors = [''!!'', ''!!!'']\<rparr>
   \<and> length (concat [[1], [4, 4, 4, 4 :: nat]]) = 1 + 4
   \<and> length [''!!'', ''!!!''] = card {2, 3 :: nat}
   \<and> length [[1], [4, 4, 4, 4 :: nat]] + length [''!!'', ''!!!''] = length [1, 2, 3, 4 :: nat]"
proof -
  have r: "replicate 4 (4::nat) = [4, 4, 4, 4]" "replicate 1 (1::nat) = [1]"
    "replicate 2 CHR ''!'' = ''!!''" "replicate 3 CHR ''!'' = ''!!!''"
    by (simp_all add: numeral_eq_Suc)
  obtain fo where "fst (processItems [1, 2, 3, 4 :: nat]
            (\<lambda>b s. (if b \<in> {2, 3} then Inl (replicate b CHR ''!'') else Inr (replicate b b),
                    s @ [b]))
            False []) = Inr fo"
    and "results fo = map (\<lambda>b. replicate b b) (filter (\<lambda>b. b \<notin> {2, 3}) [1, 2, 3, 4])"
    and "errors fo = map (\<lambda>b. replicate b CHR ''!'') (filter (\<lambda>b. b \<in> {2, 3}) [1, 2, 3, 4])"
    using processItems_collect_all [of "[1, 2, 3, 4]" "{2, 3}" "\<lambda>b. replicate b CHR ''!''"
        "\<lambda>b. replicate b b" "\<lambda>b s. s @ [b]" "[]"] by blast
  then have "fst (processItems [1, 2, 3, 4 :: nat]
            (\<lambda>b s. (if b \<in> {2, 3} then Inl (replicate b CHR ''!'') else Inr (replicate b b),
                    s @ [b]))
            False []) = Inr \<lparr>results = [[1], [4, 4, 4, 4]], errors = [''!!'', ''!!!'']\<rparr>"
    using r by simp
  then show ?thesis
    by simp
qed

lemma dispatch_fetchAvatarsForChunk:
  "dispatch (fetchAvatarsForChunk db) chunks reqs
     = (map (\<lambda>chunk. fst (fetchAvatarsForChunk db chunk [])) chunks,
        reqs @ map (GetDocsWhereNameIn ''avatars'') chunks)"
proof (induction chunks arbitrary: reqs)
  case Nil
  then show ?case by simp
next
  case (Cons chunk chunks)
  have "fetchAvatarsForChunk db chunk reqs
          = (fst (fetchAvatarsForChunk db chunk []), reqs @ [GetDocsWhereNameIn ''avatars'' chunk])"
    by (simp add: fetchAvatarsForChunk_def split: sum.splits)
  then show ?case
    using Cons.IH by simp
qed

lemma concat_successes_fetch:
  "concat (successes (map (\<lambda>chunk. fst (fetchAvatarsForChunk db chunk [])) chunks))
     = concat (map (urls_of_chunk db) chunks)"
  by (induction chunks) (simp_all add: fetchAvatarsForChunk_def split: sum.splits)

lemma failures_fetch:
  "length (failures (map (\<lambda>chunk. fst (fetchAvatarsForChunk db chunk [])) chunks))
     = length (filter (\<lambda>chunk. isl (where_name_in db ''avatars'' chunk)) chunks)"
  by (induction chunks) (simp_all add: fetchAvatarsForChunk_def split: sum.splits)

lemma getParticipantsAvatar_read:
  assumes "collection_docs db (''ceremonies/'' @ ceremonyId @ ''/participants'') = Inr participantsDocs"
  shows "getParticipantsAvatar db ceremonyId reqs
           = (Inr (concat (map (urls_of_chunk db) (chunk_ids (map doc_id participantsDocs)))),
              reqs @ [GetDocsCollection (''ceremonies/'' @ ceremonyId @ ''/participants'')]
                @ map (GetDocsWhereNameIn ''avatars'') (chunk_ids (map doc_id participantsDocs)))"
proof -
  have "map info_id (fromQueryToFirebaseDocumentInfo participantsDocs) = map doc_id participantsDocs"
    by (simp add: fromQueryToFirebaseDocumentInfo_def)
  then show ?thesis
    using assms
    by (simp add: getParticipantsAvatar_def getAllCollectionDocs_def processItems_def
        dispatch_fetchAvatarsForChunk concat_successes_fetch Let_def)
qed

text \<open>
  C4. Once the participants have been read, \<open>getParticipantsAvatar\<close> returns a list whatever
  the batches do: a batch whose query is rejected contributes nothing, its error is recorded
  by the fan-out (one error per rejected query) and dropped by the caller, every batch's
  query is still issued, and the URLs of every batch that succeeds are returned.
\<close>

theorem getParticipantsAvatar_partial_failure:
  assumes "collection_docs db (''ceremonies/'' @ ceremonyId @ ''/participants'') = Inr participantsDocs"
  shows "getParticipantsAvatar db ceremonyId reqs
           = (Inr (concat (map (urls_of_chunk db) (chunk_ids (map doc_id participantsDocs)))),
              reqs @ [GetDocsCollection (''ceremonies/'' @ ceremonyId @ ''/participants'')]
                @ map (GetDocsWhereNameIn ''avatars'') (chunk_ids (map doc_id participantsDocs)))
         \<and> (\<exists>fo. fst (processItems (chunk_ids (map doc_id participantsDocs))
                        (fetchAvatarsForChunk db) False reqs1) = Inr fo
                \<and> length (errors fo)
                    = length (filter (\<lambda>chunk. isl (where_name_in db ''avatars'' chunk))
                        (chunk_ids (map doc_id participantsDocs))))"
proof -
  have "\<exists>fo. fst (processItems (chunk_ids (map doc_id participantsDocs))
                   (fetchAvatarsForChunk db) False reqs1) = Inr fo
           \<and> length (errors fo)
               = length (filter (\<lambda>chunk. isl (where_name_in db ''avatars'' chunk))
                   (chunk_ids (map doc_id participantsDocs)))"
    by (simp add: processItems_def dispatch_fetchAvatarsForChunk failures_fetch)
  then show ?thesis
    using getParticipantsAvatar_read [OF assms] by simp
qed

theorem getParticipantsAvatar_partial_failure_witness:
  "collection_docs
     (example_store ''ceremonies/x/participants''
        (map (\<lambda>i. example_doc i True None None) (take 12 example_ids))
        (\<lambda>chunk. if ''a'' \<in> set chunk then Inl (FirestoreError ''unavailable'')
                  else Inr (filter (\<lambda>doc. doc_id doc \<in> set chunk) example_avatars)))
     (''ceremonies/'' @ ''x'' @ ''/participants'')
     = Inr (map (\<lambda>i. example_doc i True None None) (take 12 example_ids))
   \<and> where_name_in
        (example_store ''ceremonies/x/participants''
           (map (\<lambda>i. example_doc i True None None) (take 12 example_ids))
           (\<lambda>chunk. if ''a'' \<in> set chunk then Inl (FirestoreError ''unavailable'')
                     else Inr (filter (\<lambda>doc. doc_id doc \<in> set chunk) example_avatars)))
        ''avatars'' (take 10 example_ids)
       = Inl (FirestoreError ''unavailable'')
   \<and> getParticipantsAvatar
        (example_store ''ceremonies/x/participants''
           (map (\<lambda>i. example_doc i True None None) (take 12 example_ids))
           (\<lambda>chunk. if ''a'' \<in> set chunk then Inl (FirestoreError ''unavailable'')
                     else Inr (filter (\<lambda>doc. doc_id doc \<in> set chunk) example_avatars)))
        ''x'' []
       = (Inr [Some ''uk''],
          [GetDocsCollection ''ceremonies/x/participants'',
           GetDocsWhereNameIn ''avatars'' (take 10 example_ids),
           GetDocsWhereNameIn ''avatars'' [''k'', ''l'']])"
  (is "?H \<and> ?F \<and> ?C")
proof -
  have h: ?H and f: ?F
    by simp_all
  have c: "chunk_ids (take 12 example_ids) = [take 10 example_ids, [''k'', ''l'']]"
    by (simp add: chunk_ids_def chunk_loop_step chunk_loop_Nil)
  have ?C
    using getParticipantsAvatar_partial_failure [OF h, of "[]"] c by simp
  then show ?thesis
    using h f by blast
qed

lemma chunk_ids_25:
  assumes "length ids = 25"
  shows "chunk_ids ids = [take 10 ids, take 10 (drop 10 ids), drop 20 ids]"
proof -
  have n1: "ids \<noteq> []" and n2: "drop 10 ids \<noteq> []" and n3: "drop 20 ids \<noteq> []"
    using assms by auto
  have e: "drop 30 ids = []" and t: "take 10 (drop 20 ids) = drop 20 ids"
    using assms by simp_all
  have "chunk_loop ids [] = chunk_loop (drop 10 ids) [take 10 ids]"
    using chunk_loop_step [OF n1, of "[]"] by simp
  also have "\<dots> = chunk_loop (drop 20 ids) [take 10 ids, take 10 (drop 10 ids)]"
    using chunk_loop_step [OF n2, of "[take 10 ids]"] by simp
  also have "\<dots> = chunk_loop (drop 30 ids) [take 10 ids, take 10 (drop 10 ids), drop 20 ids]"
    using chunk_loop_step [OF n3, of "[take 10 ids, take 10 (drop 10 ids)]"] t by simp
  also have "\<dots> = [take 10 ids, take 10 (drop 10 ids), drop 20 ids]"
    using e by (simp add: chunk_loop_Nil)
  finally show ?thesis
    by (simp add: chunk_ids_def)
qed

text \<open>
  C5. With 25 participants, \<open>getParticipantsAvatar\<close> issues exactly three membership
  queries on \<open>avatars\<close>, for the first ten, the next ten and the last five identifiers. When
  the store answers a membership query of one to ten identifiers with the avatar documents
  whose identifier is in the batch, the result is the flattened list of the \<open>avatarUrl\<close>
  reads of those that exist; a participant without avatar document adds no entry and
  raises no error.
\<close>

theorem getParticipantsAvatar_25:
  assumes read: "collection_docs db (''ceremonies/'' @ ceremonyId @ ''/participants'')
                   = Inr participantsDocs"
    and count: "length participantsDocs = 25"
    and membership: "\<forall>chunk. 0 < length chunk \<and> length chunk \<le> 10 \<longrightarrow>
                       where_name_in db ''avatars'' chunk
                         = Inr (filter (\<lambda>doc. doc_id doc \<in> set chunk) avatars)"
  shows "snd (getParticipantsAvatar db ceremonyId reqs)
           = reqs @ [GetDocsCollection (''ceremonies/'' @ ceremonyId @ ''/participants''),
                     GetDocsWhereNameIn ''avatars'' (take 10 (map doc_id participantsDocs)),
                     GetDocsWhereNameIn ''avatars'' (take 10 (drop 10 (map doc_id participantsDocs))),
                     GetDocsWhereNameIn ''avatars'' (drop 20 (map doc_id participantsDocs))]
         \<and> length (take 10 (map doc_id participantsDocs)) = 10
         \<and> length (take 10 (drop 10 (map doc_id participantsDocs))) = 10
         \<and> length (drop 20 (map doc_id participantsDocs)) = 5
         \<and> fst (getParticipantsAvatar db ceremonyId reqs)
             = Inr (concat (map (\<lambda>chunk. map (\<lambda>doc. avatarUrl (doc_data doc))
                                     (filter (\<lambda>doc. doc_exists doc \<and> doc_id doc \<in> set chunk) avatars))
                     [take 10 (map doc_id participantsDocs),
                      take 10 (drop 10 (map doc_id participantsDocs)),
                      drop 20 (map doc_id participantsDocs)]))"
proof -
  let ?ids = "map doc_id participantsDocs"
  have len: "length ?ids = 25"
    using count by simp
  have chunks: "chunk_ids ?ids = [take 10 ?ids, take 10 (drop 10 ?ids), drop 20 ?ids]"
    using len by (rule chunk_ids_25)
  have url: "urls_of_chunk db chunk
               = map (\<lambda>doc. avatarUrl (doc_data doc))
                   (filter (\<lambda>doc. doc_exists doc \<and> doc_id doc \<in> set chunk) avatars)"
    if "0 < length chunk" "length chunk \<le> 10" for chunk
  proof -
    have "where_name_in db ''avatars'' chunk = Inr (filter (\<lambda>doc. doc_id doc \<in> set chunk) avatars)"
      using membership that by blast
    then show ?thesis
      by (simp add: conj_commute)
  qed
  have u1: "urls_of_chunk db (take 10 ?ids)
              = map (\<lambda>doc. avatarUrl (doc_data doc))
                  (filter (\<lambda>doc. doc_exists doc \<and> doc_id doc \<in> set (take 10 ?ids)) avatars)"
    using len by (intro url) simp_all
  have u2: "urls_of_chunk db (take 10 (drop 10 ?ids))
              = map (\<lambda>doc. avatarUrl (doc_data doc))
                  (filter (\<lambda>doc. doc_exists doc \<and> doc_id doc \<in> set (take 10 (drop 10 ?ids))) avatars)"
    using len by (intro url) simp_all
  have u3: "urls_of_chunk db (drop 20 ?ids)
              = map (\<lambda>doc. avatarUrl (doc_data doc))
                  (filter (\<lambda>doc. doc_exists doc \<and> doc_id doc \<in> set (drop 20 ?ids)) avatars)"
    using len by (intro url) simp_all
  have "getParticipantsAvatar db ceremonyId reqs
          = (Inr (concat (map (urls_of_chunk db) [take 10 ?ids, take 10 (drop 10 ?ids), drop 20 ?ids])),
             reqs @ [GetDocsCollection (''ceremonies/'' @ ceremonyId @ ''/participants'')]
               @ map (GetDocsWhereNameIn ''avatars'')
                   [take 10 ?ids, take 10 (drop 10 ?ids), drop 20 ?ids])"
    using getParticipantsAvatar_read [OF read, of reqs] by (simp only: chunks)
  then have "snd (getParticipantsAvatar db ceremonyId reqs)
           = reqs @ [GetDocsCollection (''ceremonies/'' @ ceremonyId @ ''/participants''),
                     GetDocsWhereNameIn ''avatars'' (take 10 ?ids),
                     GetDocsWhereNameIn ''avatars'' (take 10 (drop 10 ?ids)),
                     GetDocsWhereNameIn ''avatars'' (drop 20 ?ids)]"
    and "fst (getParticipantsAvatar db ceremonyId reqs)
             = Inr (concat (map (\<lambda>chunk. map (\<lambda>doc. avatarUrl (doc_data doc))
                                     (filter (\<lambda>doc. doc_exists doc \<and> doc_id doc \<in> set chunk) avatars))
                     [take 10 ?ids, take 10 (drop 10 ?ids), drop 20 ?ids]))"
    using u1 u2 u3 by simp_all
  moreover have "length (take 10 ?ids) = 10" "length (take 10 (drop 10 ?ids)) = 10"
    "length (drop 20 ?ids) = 5"
    using len by simp_all
  ultimately show ?thesis
    by blast
qed

theorem getParticipantsAvatar_25_witness:
  "collection_docs
     (example_store ''ceremonies/x/participants''
        (map (\<lambda>i. example_doc i True None None) example_ids)
        (\<lambda>chunk. if chunk = [] \<or> 10 < length chunk then Inl (FirestoreError ''invalid-argument'')
                  else Inr (filter (\<lambda>doc. doc_id doc \<in> set chunk) example_avatars)))
     (''ceremonies/'' @ ''x'' @ ''/participants'')
     = Inr (map (\<lambda>i. example_doc i True None None) example_ids)
   \<and> length (map (\<lambda>i. example_doc i True None None) example_ids) = 25
   \<and> where_name_in
        (example_store ''ceremonies/x/participants''
           (map (\<lambda>i. example_doc i True None None) example_ids)
           (\<lambda>chunk. if chunk = [] \<or> 10 < length chunk then Inl (FirestoreError ''invalid-argument'')
                     else Inr (filter (\<lambda>doc. doc_id doc \<in> set chunk) example_avatars)))
        ''avatars'' [''u'', ''v'', ''w'', ''x'', ''y'']
       = Inr [example_doc ''y'' True None (Some ''uy'')]
   \<and> snd (getParticipantsAvatar
        (example_store ''ceremonies/x/participants''
           (map (\<lambda>i. example_doc i True None None) example_ids)
           (\<lambda>chunk. if chunk = [] \<or> 10 < length chunk then Inl (FirestoreError ''invalid-argument'')
                     else Inr (filter (\<lambda>doc. doc_id doc \<in> set chunk) example_avatars)))
        ''x'' [])
       = [GetDocsCollection ''ceremonies/x/participants'',
          GetDocsWhereNameIn ''avatars'' (take 10 example_ids),
          GetDocsWhereNameIn ''avatars'' (take 10 (drop 10 example_ids)),
          GetDocsWhereNameIn ''avatars'' [''u'', ''v'', ''w'', ''x'', ''y'']]
   \<and> fst (getParticipantsAvatar
        (example_store ''ceremonies/x/participants''
           (map (\<lambda>i. example_doc i True None None) example_ids)
           (\<lambda>chunk. if chunk = [] \<or> 10 < length chunk then Inl (FirestoreError ''invalid-argument'')
                     else Inr (filter (\<lambda>doc. doc_id doc \<in> set chunk) example_avatars)))
        ''x'' [])
       = Inr [Some ''ua'', Some ''uk'', Some ''uy'']"
  (is "?H1 \<and> ?H2 \<and> ?H3 \<and> ?C")
proof -
  let ?db = "example_store ''ceremonies/x/participants''
               (map (\<lambda>i. example_doc i True None None) example_ids)
               (\<lambda>chunk. if chunk = [] \<or> 10 < length chunk
                         then Inl (FirestoreError ''invalid-argument'')
                         else Inr (filter (\<lambda>doc. doc_id doc \<in> set chunk) example_avatars))"
  have h1: ?H1 and h2: ?H2 and h3: ?H3
    by simp_all
  have m: "\<forall>chunk. 0 < length chunk \<and> length chunk \<le> 10 \<longrightarrow>
             where_name_in ?db ''avatars'' chunk
               = Inr (filter (\<lambda>doc. doc_id doc \<in> set chunk) example_avatars)"
    by auto
  have ?C
    using getParticipantsAvatar_25 [OF h1 h2 m, of "[]"] by simp
  then show ?thesis
    using h1 h2 h3 by blast
qed

text \<open>
  C6. With an empty participants collection the batch list is empty, the result is the
  empty list, and the only call to the store is the read of the participants: no
  membership query is issued.
\<close>

theorem getParticipantsAvatar_no_participants:
  assumes "collection_docs db (''ceremonies/'' @ ceremonyId @ ''/participants'') = Inr []"
  shows "chunk_ids (map info_id (fromQueryToFirebaseDocumentInfo [])) = []
         \<and> getParticipantsAvatar db ceremonyId reqs
             = (Inr [], reqs @ [GetDocsCollection (''ceremonies/'' @ ceremonyId @ ''/participants'')])"
proof -
  have "chunk_ids ([] :: string list) = []"
    by (simp add: chunk_ids_def chunk_loop_Nil)
  then show ?thesis
    using getParticipantsAvatar_read [OF assms, of reqs]
    by (simp add: fromQueryToFirebaseDocumentInfo_def)
qed

theorem getParticipantsAvatar_no_participants_witness:
  "collection_docs
     (example_store ''ceremonies/x/participants'' []
        (\<lambda>chunk. Inl (FirestoreError ''unavailable'')))
     (''ceremonies/'' @ ''x'' @ ''/participants'') = Inr []
   \<and> getParticipantsAvatar
        (example_store ''ceremonies/x/participants'' []
           (\<lambda>chunk. Inl (FirestoreError ''unavailable'')))
        ''x'' []
       = (Inr [], [GetDocsCollection ''ceremonies/x/participants''])"
  (is "?H \<and> ?C")
proof -
  have h: ?H
    by simp
  then show ?thesis
    using getParticipantsAvatar_no_participants [OF h, of "[]"] by simp
qed

text \<open>
  C10. When its query succeeds, \<open>fetchAvatarsForChunk\<close> returns one entry per existing
  document of the answer, in order, each the document's \<open>avatarUrl\<close> read as it is: a
  document without the field yields the entry \<open>None\<close> (\<open>undefined\<close>), it is neither left
  out nor an error.
\<close>

theorem fetchAvatarsForChunk_entries:
  assumes "where_name_in db ''avatars'' chunk = Inr avatarDocs"
  shows "\<exists>urls. fetchAvatarsForChunk db chunk reqs
                  = (Inr urls, reqs @ [GetDocsWhereNameIn ''avatars'' chunk])
           \<and> length urls = length (filter doc_exists avatarDocs)
           \<and> (\<forall>i < length urls. urls ! i = avatarUrl (doc_data (filter doc_exists avatarDocs ! i)))"
  using assms by (simp add: fetchAvatarsForChunk_def)

theorem fetchAvatarsForChunk_entries_witness:
  "where_name_in
     (example_store ''ceremonies'' []
        (\<lambda>chunk. Inr (filter (\<lambda>doc. doc_id doc \<in> set chunk)
           [example_doc ''a'' True None (Some ''ua''), example_doc ''b'' True None None,
            example_doc ''c'' False None (Some ''uc'')])))
     ''avatars'' [''a'', ''b'', ''c'', ''d'']
     = Inr [example_doc ''a'' True None (Some ''ua''), example_doc ''b'' True None None,
            example_doc ''c'' False None (Some ''uc'')]
   \<and> fetchAvatarsForChunk
        (example_store ''ceremonies'' []
           (\<lambda>chunk. Inr (filter (\<lambda>doc. doc_id doc \<in> set chunk)
              [example_doc ''a'' True None (Some ''ua''), example_doc ''b'' True None None,
               example_doc ''c'' False None (Some ''uc'')])))
        [''a'', ''b'', ''c'', ''d''] []
       = (Inr [Some ''ua'', None], [GetDocsWhereNameIn ''avatars'' [''a'', ''b'', ''c'', ''d'']])"
  (is "?H \<and> ?C")
proof -
  have h: ?H
    by simp
  have ?C
    by (simp add: fetchAvatarsForChunk_def)
  then show ?thesis
    using h fetchAvatarsForChunk_entries [OF h, of "[]"] by simp
qed

end
